theory Spec2Isabelle
  imports Complex_Main
begin

section \<open>Notebook 6: regularization with ridge and lasso regression\<close>

text \<open>
  The notebook's numeric arrays are one-dimensional float arrays (modelled as lists of reals,
  exact arithmetic) and two-dimensional float arrays (lists of rows).
\<close>

type_synonym vec = "real list"
type_synonym matrix = "real list list"

subsection \<open>The numpy element-wise operations used by the alpha sweep\<close>

text \<open>
  \<^verbatim>\<open>np.power(v, 2)\<close> raises every entry to the power, \<^verbatim>\<open>np.sum\<close> adds the entries up,
  \<^verbatim>\<open>np.sqrt\<close> is the square root of a scalar.
\<close>

definition np_power :: "vec \<Rightarrow> nat \<Rightarrow> vec" where
  "np_power v p = map (\<lambda>c. c ^ p) v"

definition np_sum :: "vec \<Rightarrow> real" where
  "np_sum v = sum_list v"

definition np_sqrt :: "real \<Rightarrow> real" where
  "np_sqrt s = sqrt s"

text \<open>
  The value appended to \<^verbatim>\<open>norms\<close> in the alpha sweep:
  \<^verbatim>\<open>np.power(np.sqrt(np.sum(np.power(coefs,2))),2)\<close>.
\<close>

definition norm_entry :: "vec \<Rightarrow> real" where
  "norm_entry coefs = (np_sqrt (np_sum (np_power coefs 2))) ^ 2"

subsection \<open>Rounding\<close>

text \<open>
  \<^verbatim>\<open>np.rint\<close> and the binary64 arithmetic both round to the nearest integer with ties
  going to the even neighbour.
\<close>

definition rint :: "real \<Rightarrow> int" where
  "rint r = (let f = \<lfloor>r\<rfloor>; d = r - of_int f in
     if d < 1 / 2 then f else if 1 / 2 < d then f + 1 else if even f then f else f + 1)"

subsection \<open>Array creation\<close>

text \<open>\<^verbatim>\<open>np.zeros((r, c))\<close>.\<close>

definition np_zeros :: "nat \<Rightarrow> nat \<Rightarrow> matrix" where
  "np_zeros r c = replicate r (replicate c 0)"

text \<open>
  \<^verbatim>\<open>np.empty((r, c))\<close> returns an array of the given shape whose entries are whatever the
  memory held; the contents are a parameter.
\<close>

definition np_empty :: "(nat \<Rightarrow> nat \<Rightarrow> real) \<Rightarrow> nat \<Rightarrow> nat \<Rightarrow> matrix" where
  "np_empty junk r c = map (\<lambda>i. map (junk i) [0..<c]) [0..<r]"

text \<open>
  \<^verbatim>\<open>np.linspace(start, stop, num)\<close>: \<open>num\<close> evenly spaced samples from \<open>start\<close> to
  \<open>stop\<close>, both included.
\<close>

definition np_linspace :: "real \<Rightarrow> real \<Rightarrow> nat \<Rightarrow> vec" where
  "np_linspace start stop num =
     map (\<lambda>k. start + of_nat k * ((stop - start) / of_nat (num - 1))) [0..<num]"

text \<open>
  The random draws are parameters: \<^verbatim>\<open>np.random.randn(k)\<close> returns \<open>k\<close> draws of a stream,
  \<^verbatim>\<open>np.random.randint(low, high, k)\<close> returns \<open>k\<close> integers of \<open>low \<le> v < high\<close>.
\<close>

definition randn :: "(nat \<Rightarrow> real) \<Rightarrow> nat \<Rightarrow> vec" where
  "randn z k = map z [0..<k]"

definition randint :: "(nat \<Rightarrow> nat) \<Rightarrow> int \<Rightarrow> int \<Rightarrow> nat \<Rightarrow> int list" where
  "randint u low high k = map (\<lambda>j. low + int (u j) mod (high - low)) [0..<k]"

subsection \<open>Binary64 rounding and \<^verbatim>\<open>np.arange\<close>\<close>

text \<open>
  The length of \<^verbatim>\<open>np.arange(start, stop, step)\<close> is the ceiling of a quotient computed in
  binary64, so this one function is modelled in binary64: a float is the rational it denotes,
  and \<open>fl q\<close> is the binary64 value nearest to \<open>q\<close> (53 significant bits, ties to even,
  gradual underflow below \<open>2 ^ -1022\<close>). Overflow to infinity (from \<open>2 ^ 1024\<close> on) is not
  modelled.
\<close>

text \<open>The number of binary digits of a positive integer.\<close>

function bit_length :: "int \<Rightarrow> int" where
  "bit_length n = (if n \<le> 0 then 0 else 1 + bit_length (n div 2))"
  by pat_completeness auto
termination
  by (relation "measure nat") auto

text \<open>The exponent \<open>e\<close> with \<open>2 ^ e \<le> a < 2 ^ (e + 1)\<close>, for \<open>0 < a\<close>.\<close>

definition ilog2 :: "real \<Rightarrow> int" where
  "ilog2 a = (if 1 \<le> a then bit_length \<lfloor>a\<rfloor> - 1 else - bit_length (\<lceil>1 / a\<rceil> - 1))"

definition fl :: "real \<Rightarrow> real" where
  "fl q = (if q = 0 then 0 else
     let a = \<bar>q\<bar>; e = max (ilog2 a) (- 1022) in
     sgn q * (of_int (rint (a * 2 powi (52 - e))) * 2 powi (e - 52)))"

text \<open>
  \<^verbatim>\<open>np.arange(start, stop, step)\<close> on Python numbers: the length is
  \<^verbatim>\<open>ceil((stop - start) / step)\<close>, the first entry is \<open>start\<close>, the second
  \<open>start + step\<close>, and entry \<open>i\<close> from the third on is \<open>start + i * delta\<close> with \<open>delta\<close> the
  difference of the first two.
\<close>

definition arange_length :: "real \<Rightarrow> real \<Rightarrow> real \<Rightarrow> nat" where
  "arange_length start stop step = nat \<lceil>fl (fl (stop - start) / step)\<rceil>"

definition arange_entry :: "real \<Rightarrow> real \<Rightarrow> nat \<Rightarrow> real" where
  "arange_entry start step i =
     (let next = fl (start + step); delta = fl (next - start) in
      if i = 0 then start else if i = 1 then next
      else fl (start + fl (of_nat i * delta)))"

definition np_arange :: "real \<Rightarrow> real \<Rightarrow> real \<Rightarrow> vec" where
  "np_arange start stop step =
     map (arange_entry start step) [0..<arange_length start stop step]"

subsection \<open>\<^verbatim>\<open>np.round\<close>\<close>

text \<open>
  \<^verbatim>\<open>np.round(v, decimals)\<close> works on the binary64 entries in three binary64 steps: it
  multiplies the entry by the float \<open>10 ^ decimals\<close>, rounds the product to the nearest integer
  (ties to even), and divides by the same float. The product and the quotient are each
  rounded to binary64, so an entry within rounding error of a tie can go to the other side
  than its exact decimal expansion would: the float \<^verbatim>\<open>0.0025\<close> gives \<^verbatim>\<open>0.002\<close>. A product that
  overflows binary64 is infinite in numpy and is outside this model.
\<close>

definition np_round :: "vec \<Rightarrow> nat \<Rightarrow> vec" where
  "np_round v decimals =
     map (\<lambda>c. fl (of_int (rint (fl (c * fl (10 ^ decimals)))) / fl (10 ^ decimals))) v"

subsection \<open>Slice assignment\<close>

text \<open>
  The notebook's own statements raise when an index is out of range or when the value
  assigned to a slice cannot be broadcast to the slice's shape; an exception raised inside a
  library fit is carried with the library's own description of it.
\<close>

type_synonym lib_exn = string
type_synonym warning = string

datatype exn = FitError lib_exn | BroadcastError | IndexError

text \<open>A one-dimensional value fits a slice of \<open>m\<close> entries when it has \<open>m\<close> entries or one.\<close>

definition broadcast_to :: "nat \<Rightarrow> vec \<Rightarrow> exn + vec" where
  "broadcast_to m v =
     (if length v = m then Inr v
      else if length v = 1 then Inr (replicate m (hd v))
      else Inl BroadcastError)"

text \<open>\<^verbatim>\<open>M[r, :k] = v\<close>: the slice \<^verbatim>\<open>:k\<close> stops at the end of the row when \<open>k\<close> is larger.\<close>

definition assign_row_prefix :: "matrix \<Rightarrow> nat \<Rightarrow> nat \<Rightarrow> vec \<Rightarrow> exn + matrix" where
  "assign_row_prefix M r k v =
     (if r < length M then
        (case broadcast_to (min k (length (M ! r))) v of
           Inl e \<Rightarrow> Inl e
         | Inr w \<Rightarrow> Inr (M[r := w @ drop (length w) (M ! r)]))
      else Inl IndexError)"

text \<open>\<^verbatim>\<open>M[r, :] = v\<close>.\<close>

definition assign_row :: "matrix \<Rightarrow> nat \<Rightarrow> vec \<Rightarrow> exn + matrix" where
  "assign_row M r v =
     (if r < length M then
        (case broadcast_to (length (M ! r)) v of
           Inl e \<Rightarrow> Inl e
         | Inr w \<Rightarrow> Inr (M[r := w]))
      else Inl IndexError)"

subsection \<open>The regression library\<close>

text \<open>
  The estimators the notebook constructs, with the arguments it passes:
  \<^verbatim>\<open>LinearRegression()\<close>, \<^verbatim>\<open>Ridge(alpha=a, normalize=b)\<close> and
  \<^verbatim>\<open>Lasso(alpha=a, normalize=b, max_iter=m)\<close>.
\<close>

datatype estimator = LinearRegression | Ridge real bool | Lasso real bool nat

text \<open>
  Fitting is the library's business: \<open>lib est X y\<close> is what fitting estimator \<open>est\<close> on
  the design matrix \<open>X\<close> and the response \<open>y\<close> gives, namely the warnings it emits and
  either the exception it raises or the fitted \<^verbatim>\<open>coef_\<close>.
\<close>

type_synonym sklearn = "estimator \<Rightarrow> matrix \<Rightarrow> vec \<Rightarrow> warning list \<times> (lib_exn + vec)"

text \<open>
  \<^verbatim>\<open>PolynomialFeatures(d, include_bias=False)\<close> applied to \<^verbatim>\<open>x.reshape(-1,1)\<close>: the row of
  a sample \<open>v\<close> holds its powers \<open>v ^ 1, \<dots>, v ^ d\<close>.
\<close>

definition poly_features :: "nat \<Rightarrow> vec \<Rightarrow> matrix" where
  "poly_features d x = map (\<lambda>v. map (\<lambda>k. v ^ k) [1..<d + 1]) x"

subsection \<open>Running a cell\<close>

text \<open>
  What a cell does besides computing its variables is recorded in order: each fit it asks
  the library for, and each warning that comes out. A cell ends with the exception that
  stopped it or with its result.
\<close>

datatype event = Fit estimator matrix vec | Warn warning

type_synonym 'a comp = "event list \<times> (exn + 'a)"

definition ret :: "'a \<Rightarrow> 'a comp" where
  "ret a = ([], Inr a)"

definition lift :: "exn + 'a \<Rightarrow> 'a comp" where
  "lift r = ([], r)"

text \<open>Statements in sequence: an exception in the first skips the rest.\<close>

definition seq :: "'a comp \<Rightarrow> ('a \<Rightarrow> 'b comp) \<Rightarrow> 'b comp" where
  "seq m f = (case m of
      (ev, Inl e) \<Rightarrow> (ev, Inl e)
    | (ev, Inr a) \<Rightarrow> (case f a of (ev', r) \<Rightarrow> (ev @ ev', r)))"

text \<open>A \<^verbatim>\<open>for\<close> loop over a list, threading the variables the body updates.\<close>

fun for_each :: "'a list \<Rightarrow> ('a \<Rightarrow> 's \<Rightarrow> 's comp) \<Rightarrow> 's \<Rightarrow> 's comp" where
  "for_each [] body s = ret s"
| "for_each (i # is) body s = seq (body i s) (for_each is body)"

text \<open>
  \<^verbatim>\<open>pipe = Pipeline([('poly', PolynomialFeatures(d, include_bias=False)), ('reg', est)])\<close>,
  \<^verbatim>\<open>pipe.fit(x.reshape(-1,1), y)\<close> and the read of \<^verbatim>\<open>pipe['reg'].coef_\<close>.
\<close>

definition pipe_fit :: "sklearn \<Rightarrow> nat \<Rightarrow> estimator \<Rightarrow> vec \<Rightarrow> vec \<Rightarrow> vec comp" where
  "pipe_fit lib d est x y =
     (case lib est (poly_features d x) y of
        (ws, r) \<Rightarrow> (Fit est (poly_features d x) y # map Warn ws,
                     case r of Inl e \<Rightarrow> Inl (FitError e) | Inr coef \<Rightarrow> Inr coef))"

subsection \<open>The code cells\<close>

text \<open>
  Cells 3 and 30:
  \<^verbatim>\<open>x = np.linspace(-3,3,100)\<close>, \<^verbatim>\<open>y = x*(x-1) + 1.2*np.random.randn(100)\<close>.
  Both operands of every element-wise operation have 100 entries.
\<close>

definition cell3 :: "(nat \<Rightarrow> real) \<Rightarrow> vec \<times> vec" where
  "cell3 z =
     (let x = np_linspace (- 3) 3 100;
          y = map2 (+) (map2 (*) x (map (\<lambda>v. v - 1) x)) (map (\<lambda>r. 1.2 * r) (randn z 100))
      in (x, y))"

definition cell30 :: "(nat \<Rightarrow> real) \<Rightarrow> vec \<times> vec" where
  "cell30 z =
     (let x = np_linspace (- 3) 3 100;
          y = map2 (+) (map2 (*) x (map (\<lambda>v. v - 1) x)) (map (\<lambda>r. 1.2 * r) (randn z 100))
      in (x, y))"

text \<open>Cell 5: \<^verbatim>\<open>n = 26\<close>, \<^verbatim>\<open>coef_holder = np.zeros((n,n))\<close>.\<close>

definition cell5 :: "nat \<times> matrix" where
  "cell5 = (let n = 26 in (n, np_zeros n n))"

text \<open>
  Cell 6:
  \<^verbatim>\<open>
  for i in range(1,n+1):
      pipe = Pipeline([('poly',PolynomialFeatures(i,include_bias = False)),
                      ('reg',LinearRegression())])
      pipe.fit(x.reshape(-1,1),y)
      coef_holder[i-1,:i] = np.round(pipe['reg'].coef_,3)
  \<close>
\<close>

definition cell6_body :: "sklearn \<Rightarrow> vec \<Rightarrow> vec \<Rightarrow> nat \<Rightarrow> matrix \<Rightarrow> matrix comp" where
  "cell6_body lib x y i coef_holder =
     seq (pipe_fit lib i LinearRegression x y) (\<lambda>coef.
       lift (assign_row_prefix coef_holder (i - 1) i (np_round coef 3)))"

definition cell6 :: "sklearn \<Rightarrow> vec \<Rightarrow> vec \<Rightarrow> nat \<Rightarrow> matrix \<Rightarrow> matrix comp" where
  "cell6 lib x y n coef_holder = for_each [1..<n + 1] (cell6_body lib x y) coef_holder"

text \<open>
  Cell 11:
  \<^verbatim>\<open>
  alphas = np.arange(0,.001,.000001)
  norms = []
  for a in alphas:
      pipe = Pipeline([('poly',PolynomialFeatures(30, include_bias=False)),
                      ('ridge',Ridge(alpha=a, normalize=True))])
      pipe.fit(x.reshape(-1,1),y)
      coefs = pipe['ridge'].coef_
      norms.append(np.power(np.sqrt(np.sum(np.power(coefs,2))),2))
  \<close>
  The float literals \<^verbatim>\<open>.001\<close> and \<^verbatim>\<open>.000001\<close> denote the binary64 values nearest to them.
\<close>

definition alphas :: vec where
  "alphas = np_arange 0 (fl (1 / 1000)) (fl (1 / 1000000))"

definition cell11_body :: "sklearn \<Rightarrow> vec \<Rightarrow> vec \<Rightarrow> real \<Rightarrow> vec \<Rightarrow> vec comp" where
  "cell11_body lib x y a norms =
     seq (pipe_fit lib 30 (Ridge a True) x y) (\<lambda>coefs.
       ret (norms @ [norm_entry coefs]))"

definition cell11 :: "sklearn \<Rightarrow> vec \<Rightarrow> vec \<Rightarrow> (vec \<times> vec) comp" where
  "cell11 lib x y =
     seq (for_each alphas (cell11_body lib x y) []) (\<lambda>norms. ret (alphas, norms))"

text \<open>
  Cell 14:
  \<^verbatim>\<open>
  age = np.random.randint(20,40,100)
  distance = 3*np.random.randn(100)+10
  tiredness = age +  3*distance + 2*np.random.randn(100)
  \<close>
\<close>

definition cell14 ::
  "(nat \<Rightarrow> nat) \<Rightarrow> (nat \<Rightarrow> real) \<Rightarrow> (nat \<Rightarrow> real) \<Rightarrow> int list \<times> vec \<times> vec" where
  "cell14 u z z' =
     (let age = randint u 20 40 100;
          distance = map (\<lambda>r. 3 * r + 10) (randn z 100);
          tiredness = map2 (+) (map2 (+) (map of_int age) (map (\<lambda>d. 3 * d) distance))
                                (map (\<lambda>r. 2 * r) (randn z' 100))
      in (age, distance, tiredness))"

text \<open>
  Cell 33:
  \<^verbatim>\<open>
  alpha = [0.00001,0.0001,0.001,0.01,0.1,1,10,100,1000]
  n=10
  ridge_coefs = np.empty((len(alpha),n))
  lasso_coefs = np.empty((len(alpha),n))
  for i in range(len(alpha)):
      ridge_pipe = Pipeline([('poly',PolynomialFeatures(n,include_bias=False)),
                            ('ridge',Ridge(alpha = alpha[i], normalize=True))])
      lasso_pipe = Pipeline([('poly',PolynomialFeatures(n,include_bias=False)),
                            ('lasso',Lasso(alpha = alpha[i], normalize=True, max_iter = 1000000))])
      ridge_pipe.fit(x.reshape(-1,1),y)
      lasso_pipe.fit(x.reshape(-1,1),y)
      ridge_coefs[i,:] = ridge_pipe['ridge'].coef_
      lasso_coefs[i,:] = lasso_pipe['lasso'].coef_
  \<close>
\<close>

definition alpha :: vec where
  "alpha = [0.00001, 0.0001, 0.001, 0.01, 0.1, 1, 10, 100, 1000]"

definition cell33_body ::
  "sklearn \<Rightarrow> vec \<Rightarrow> vec \<Rightarrow> nat \<Rightarrow> nat \<Rightarrow> matrix \<times> matrix \<Rightarrow> (matrix \<times> matrix) comp" where
  "cell33_body lib x y n i coefs =
     (case coefs of (ridge_coefs, lasso_coefs) \<Rightarrow>
      seq (pipe_fit lib n (Ridge (alpha ! i) True) x y) (\<lambda>ridge_coef.
      seq (pipe_fit lib n (Lasso (alpha ! i) True 1000000) x y) (\<lambda>lasso_coef.
      seq (lift (assign_row ridge_coefs i ridge_coef)) (\<lambda>ridge_coefs'.
      seq (lift (assign_row lasso_coefs i lasso_coef)) (\<lambda>lasso_coefs'.
      ret (ridge_coefs', lasso_coefs'))))))"

definition cell33 ::
  "sklearn \<Rightarrow> (nat \<Rightarrow> nat \<Rightarrow> real) \<Rightarrow> (nat \<Rightarrow> nat \<Rightarrow> real) \<Rightarrow> vec \<Rightarrow> vec \<Rightarrow>
   (matrix \<times> matrix) comp" where
  "cell33 lib junk junk' x y =
     (let n = 10;
          ridge_coefs = np_empty junk (length alpha) n;
          lasso_coefs = np_empty junk' (length alpha) n
      in for_each [0..<length alpha] (cell33_body lib x y n) (ridge_coefs, lasso_coefs))"

subsection \<open>The notebook, cell by cell\<close>

text \<open>
  The random draws of a run, one stream for each call of the generator, and the memory
  contents the two \<^verbatim>\<open>np.empty\<close> calls find.
\<close>

record draws =
  randn_3 :: "nat \<Rightarrow> real"
  randint_14 :: "nat \<Rightarrow> nat"
  randn_14_distance :: "nat \<Rightarrow> real"
  randn_14_tiredness :: "nat \<Rightarrow> real"
  randn_30 :: "nat \<Rightarrow> real"
  empty_ridge :: "nat \<Rightarrow> nat \<Rightarrow> real"
  empty_lasso :: "nat \<Rightarrow> nat \<Rightarrow> real"

text \<open>The variables of the session after the last fitting cell.\<close>

record session =
  var_x :: vec
  var_y :: vec
  var_n :: nat
  var_coef_holder :: matrix
  var_alphas :: vec
  var_norms :: vec
  var_age :: "int list"
  var_distance :: vec
  var_tiredness :: vec
  var_alpha :: vec
  var_ridge_coefs :: matrix
  var_lasso_coefs :: matrix

text \<open>
  The cells that compute variables, in the notebook's order. The plotting cells, the cells
  that display a table and the exercise cells left empty assign no variable a later cell
  reads.
\<close>

definition notebook :: "sklearn \<Rightarrow> draws \<Rightarrow> session comp" where
  "notebook lib rnd =
     (case cell3 (randn_3 rnd) of (x, y) \<Rightarrow>
      case cell5 of (n, coef_holder) \<Rightarrow>
      seq (cell6 lib x y n coef_holder) (\<lambda>coef_holder'.
      seq (cell11 lib x y) (\<lambda>(alphas', norms).
      case cell14 (randint_14 rnd) (randn_14_distance rnd) (randn_14_tiredness rnd) of
        (age, distance, tiredness) \<Rightarrow>
      case cell30 (randn_30 rnd) of (x', y') \<Rightarrow>
      seq (cell33 lib (empty_ridge rnd) (empty_lasso rnd) x' y') (\<lambda>(ridge_coefs, lasso_coefs).
      ret \<lparr>var_x = x', var_y = y', var_n = 10, var_coef_holder = coef_holder',
            var_alphas = alphas', var_norms = norms, var_age = age,
            var_distance = distance, var_tiredness = tiredness, var_alpha = alpha,
            var_ridge_coefs = ridge_coefs, var_lasso_coefs = lasso_coefs\<rparr>))))"

subsection \<open>Reading the record of a run\<close>

text \<open>The fits a run asked for, and the warnings that came out of it, in order.\<close>

fun fits :: "event list \<Rightarrow> (estimator \<times> matrix \<times> vec) list" where
  "fits [] = []"
| "fits (Fit est X y # evs) = (est, X, y) # fits evs"
| "fits (Warn w # evs) = fits evs"

fun warns :: "event list \<Rightarrow> warning list" where
  "warns [] = []"
| "warns (Fit est X y # evs) = warns evs"
| "warns (Warn w # evs) = w # warns evs"

text \<open>
  A run passes the library's failures on unchanged when the warnings it shows are exactly
  those of the fits it made, in order, and it ends with a fit's exception exactly when a
  fit it made raised that exception.
\<close>

definition propagates :: "sklearn \<Rightarrow> 'a comp \<Rightarrow> bool" where
  "propagates lib c \<longleftrightarrow>
     warns (fst c) = concat (map (\<lambda>(est, X, y). fst (lib est X y)) (fits (fst c))) \<and>
     (\<forall>e. snd c = Inl (FitError e) \<longleftrightarrow>
          (\<exists>(est, X, y) \<in> set (fits (fst c)). snd (lib est X y) = Inl e))"

text \<open>
  The library's shape contract: a fitted \<^verbatim>\<open>coef_\<close> has one entry for each column of the
  design matrix.
\<close>

definition coef_per_feature :: "sklearn \<Rightarrow> bool" where
  "coef_per_feature lib \<longleftrightarrow>
     (\<forall>est X y ws coef. X \<noteq> [] \<longrightarrow> lib est X y = (ws, Inr coef) \<longrightarrow> length coef = length (hd X))"

text \<open>An array of \<open>r\<close> rows and \<open>c\<close> columns.\<close>

definition has_shape :: "matrix \<Rightarrow> nat \<Rightarrow> nat \<Rightarrow> bool" where
  "has_shape M r c \<longleftrightarrow> length M = r \<and> (\<forall>row \<in> set M. length row = c)"

text \<open>The estimators a run fitted, in order.\<close>

definition fitted :: "event list \<Rightarrow> estimator list" where
  "fitted evs = map fst (fits evs)"

text \<open>Every fit of a run satisfies \<open>Q\<close>.\<close>

definition all_fits :: "(estimator \<times> matrix \<times> vec \<Rightarrow> bool) \<Rightarrow> 'a comp \<Rightarrow> bool" where
  "all_fits Q c \<longleftrightarrow> list_all Q (fits (fst c))"

subsection \<open>Example libraries\<close>

text \<open>A library that fits every coefficient as one third and never complains.\<close>

definition third_lib :: sklearn where
  "third_lib est X y = ([], Inr (map (\<lambda>c. 1 / 3) (hd X)))"

text \<open>A library whose lasso warns and then raises, and whose other estimators fit.\<close>

definition lasso_fails :: sklearn where
  "lasso_fails est X y =
     (case est of
        Lasso a b m \<Rightarrow> ([''ConvergenceWarning''], Inl ''FloatingPointError'')
      | _ \<Rightarrow> ([], Inr (map (\<lambda>c. 1 / 3) (hd X))))"


text \<open>Draws that are all zero.\<close>

definition still_draws :: draws where
  "still_draws = \<lparr>randn_3 = (\<lambda>k. 0), randint_14 = (\<lambda>k. 0), randn_14_distance = (\<lambda>k. 0),
     randn_14_tiredness = (\<lambda>k. 0), randn_30 = (\<lambda>k. 0),
     empty_ridge = (\<lambda>i j. 0), empty_lasso = (\<lambda>i j. 0)\<rparr>"

section \<open>Properties\<close>

subsection \<open>Records of runs\<close>

lemma fits_append: "fits (evs @ evs') = fits evs @ fits evs'"
  by (induction evs rule: fits.induct) simp_all

lemma warns_append: "warns (evs @ evs') = warns evs @ warns evs'"
  by (induction evs rule: warns.induct) simp_all

lemma fits_map_Warn: "fits (map Warn ws) = []"
  by (induction ws) simp_all

lemma warns_map_Warn: "warns (map Warn ws) = ws"
  by (induction ws) simp_all

lemma seq_Inl: "seq (ev, Inl e) f = (ev, Inl e)"
  by (simp add: seq_def)

lemma seq_Inr: "seq (ev, Inr a) f = (ev @ fst (f a), snd (f a))"
  by (simp add: seq_def split: prod.splits)

lemma propagates_ret: "propagates lib (ret a)"
  by (simp add: propagates_def ret_def)

lemma propagates_lift:
  "(\<And>e. r \<noteq> Inl (FitError e)) \<Longrightarrow> propagates lib (lift r)"
  by (simp add: propagates_def lift_def)

lemma assign_row_prefix_no_FitError: "assign_row_prefix M r k v \<noteq> Inl (FitError e)"
  by (auto simp: assign_row_prefix_def broadcast_to_def split: sum.splits if_splits)

lemma assign_row_no_FitError: "assign_row M r v \<noteq> Inl (FitError e)"
  by (auto simp: assign_row_def broadcast_to_def split: sum.splits if_splits)

lemma propagates_pipe_fit: "propagates lib (pipe_fit lib d est x y)"
  by (cases "lib est (poly_features d x) y")
     (auto simp: propagates_def pipe_fit_def fits_map_Warn warns_map_Warn split: sum.splits)

lemma propagates_seq:
  assumes "propagates lib m" and "\<And>a. snd m = Inr a \<Longrightarrow> propagates lib (f a)"
  shows "propagates lib (seq m f)"
proof (cases m)
  case (Pair ev r)
  show ?thesis
  proof (cases r)
    case (Inl e)
    with Pair assms(1) show ?thesis by (simp add: seq_Inl propagates_def)
  next
    case (Inr a)
    with Pair assms(2) have fa: "propagates lib (f a)" by simp
    from Pair Inr assms(1) have quiet: "\<And>est X y e. (est, X, y) \<in> set (fits ev) \<Longrightarrow> snd (lib est X y) \<noteq> Inl e"
      by (fastforce simp: propagates_def)
    from Pair Inr assms(1) have w: "warns ev = concat (map (\<lambda>(est, X, y). fst (lib est X y)) (fits ev))"
      by (simp add: propagates_def)
    show ?thesis
      using fa w quiet unfolding Pair Inr seq_Inr propagates_def
      by (auto simp: fits_append warns_append)
  qed
qed

lemma propagates_for_each:
  assumes "\<And>i s. propagates lib (body i s)"
  shows "propagates lib (for_each is body s)"
proof (induction "is" arbitrary: s)
  case Nil
  show ?case by (simp add: propagates_ret)
next
  case (Cons i "is")
  show ?case by (simp add: propagates_seq assms Cons.IH)
qed

lemma propagates_cell6_body: "propagates lib (cell6_body lib x y i H)"
  unfolding cell6_body_def
  by (intro propagates_seq propagates_pipe_fit propagates_lift assign_row_prefix_no_FitError)

lemma propagates_cell11_body: "propagates lib (cell11_body lib x y a norms)"
  unfolding cell11_body_def
  by (intro propagates_seq propagates_pipe_fit propagates_ret)

lemma propagates_cell33_body: "propagates lib (cell33_body lib x y n i coefs)"
  unfolding cell33_body_def
  by (cases coefs)
     (auto intro!: propagates_seq propagates_pipe_fit propagates_lift propagates_ret
        simp: assign_row_no_FitError)

lemma propagates_cell6: "propagates lib (cell6 lib x y n H)"
  unfolding cell6_def by (rule propagates_for_each) (rule propagates_cell6_body)

lemma propagates_cell11: "propagates lib (cell11 lib x y)"
  unfolding cell11_def
  by (intro propagates_seq propagates_for_each propagates_cell11_body propagates_ret)

lemma propagates_cell33: "propagates lib (cell33 lib junk junk' x y)"
  unfolding cell33_def Let_def by (rule propagates_for_each) (rule propagates_cell33_body)

lemma propagates_notebook: "propagates lib (notebook lib rnd)"
  unfolding notebook_def
  by (auto split: prod.splits
      intro!: propagates_seq propagates_cell6 propagates_cell11 propagates_cell33 propagates_ret)

subsection \<open>Shapes and loops\<close>

lemma length_np_round: "length (np_round v k) = length v"
  by (simp add: np_round_def)

lemma nth_np_round:
  "j < length v \<Longrightarrow>
     np_round v k ! j = fl (of_int (rint (fl (v ! j * fl (10 ^ k)))) / fl (10 ^ k))"
  by (simp add: np_round_def)


lemma has_shape_np_empty: "has_shape (np_empty junk r c) r c"
  by (auto simp: has_shape_def np_empty_def)

lemma has_shape_nth: "has_shape M r c \<Longrightarrow> i < r \<Longrightarrow> length (M ! i) = c"
  by (simp add: has_shape_def)

lemma has_shape_update:
  "has_shape M r c \<Longrightarrow> length row = c \<Longrightarrow> has_shape (M[i := row]) r c"
  by (auto simp: has_shape_def dest: set_update_subset_insert [THEN subsetD])

lemma broadcast_to_length: "broadcast_to m v = Inr w \<Longrightarrow> length w = m"
  by (auto simp: broadcast_to_def split: if_splits)

lemma broadcast_to_same: "length v = m \<Longrightarrow> broadcast_to m v = Inr v"
  by (simp add: broadcast_to_def)

lemma poly_features_rows:
  "x \<noteq> [] \<Longrightarrow> poly_features d x \<noteq> [] \<and> length (hd (poly_features d x)) = d"
  by (cases x) (simp_all add: poly_features_def)

lemma pipe_fit_Inr:
  "pipe_fit lib d est x y = (ev, Inr coef) \<Longrightarrow>
     \<exists>ws. lib est (poly_features d x) y = (ws, Inr coef)"
  by (auto simp: pipe_fit_def split: prod.splits sum.splits)

lemma pipe_fit_Inl:
  "pipe_fit lib d est x y = (ev, Inl e) \<Longrightarrow> \<exists>le. e = FitError le"
  by (auto simp: pipe_fit_def split: prod.splits sum.splits)

lemma pipe_fit_length:
  assumes "coef_per_feature lib" and "x \<noteq> []" and "pipe_fit lib d est x y = (ev, Inr coef)"
  shows "length coef = d"
proof -
  from assms(3) obtain ws where "lib est (poly_features d x) y = (ws, Inr coef)"
    by (auto dest: pipe_fit_Inr)
  with assms(1) poly_features_rows [OF assms(2), of d] show ?thesis
    unfolding coef_per_feature_def by metis
qed

lemma seq_eq_Inr:
  "seq m f = (ev, Inr b) \<longleftrightarrow>
     (\<exists>ev1 a ev2. m = (ev1, Inr a) \<and> f a = (ev2, Inr b) \<and> ev = ev1 @ ev2)"
  by (cases m) (auto simp: seq_def split: sum.splits prod.splits)

lemma seq_eq_Inl:
  "seq m f = (ev, Inl e) \<longleftrightarrow>
     (m = (ev, Inl e) \<or> (\<exists>ev1 a ev2. m = (ev1, Inr a) \<and> f a = (ev2, Inl e) \<and> ev = ev1 @ ev2))"
  by (cases m) (auto simp: seq_def split: sum.splits prod.splits)

lemma lift_eq: "lift r = (ev, r') \<longleftrightarrow> ev = [] \<and> r = r'"
  by (auto simp: lift_def)

lemma ret_eq: "ret a = (ev, r) \<longleftrightarrow> ev = [] \<and> r = Inr a"
  by (auto simp: ret_def)


lemma for_each_invariant:
  assumes "P s"
    and "\<And>i s ev s'. i \<in> set is \<Longrightarrow> P s \<Longrightarrow> body i s = (ev, Inr s') \<Longrightarrow> P s'"
    and "\<And>i s ev e. i \<in> set is \<Longrightarrow> P s \<Longrightarrow> body i s = (ev, Inl e) \<Longrightarrow> Q e"
  shows "case snd (for_each is body s) of Inl e \<Rightarrow> Q e | Inr s' \<Rightarrow> P s'"
  using assms
proof (induction "is" arbitrary: s)
  case Nil
  then show ?case by (simp add: ret_def)
next
  case (Cons i "is")
  obtain ev r where b: "body i s = (ev, r)" by (cases "body i s")
  show ?case
  proof (cases r)
    case (Inl e)
    with b Cons.prems(1) Cons.prems(3) [of i s ev e] show ?thesis by (simp add: seq_Inl)
  next
    case (Inr s')
    with b Cons.prems(1) Cons.prems(2) [of i s ev s'] have "P s'" by simp
    moreover have "\<And>j t ev t'. j \<in> set is \<Longrightarrow> P t \<Longrightarrow> body j t = (ev, Inr t') \<Longrightarrow> P t'"
      using Cons.prems(2) by (meson list.set_intros(2))
    moreover have "\<And>j t ev e. j \<in> set is \<Longrightarrow> P t \<Longrightarrow> body j t = (ev, Inl e) \<Longrightarrow> Q e"
      using Cons.prems(3) by (meson list.set_intros(2))
    ultimately have "case snd (for_each is body s') of Inl e \<Rightarrow> Q e | Inr s' \<Rightarrow> P s'"
      by (rule Cons.IH)
    with b Inr show ?thesis by (simp add: seq_Inr)
  qed
qed

lemma for_each_total:
  assumes "P s"
    and "\<And>i s. i \<in> set is \<Longrightarrow> P s \<Longrightarrow> \<exists>ev s'. body i s = (ev, Inr s') \<and> P s'"
  shows "\<exists>ev s'. for_each is body s = (ev, Inr s') \<and> P s'"
  using assms
proof (induction "is" arbitrary: s)
  case Nil
  then show ?case by (simp add: ret_def)
next
  case (Cons i "is")
  from Cons.prems obtain ev s' where b: "body i s = (ev, Inr s')" and "P s'"
    by (meson list.set_intros(1))
  then obtain ev' s'' where "for_each is body s' = (ev', Inr s'')" and "P s''"
    using Cons.IH [of s'] Cons.prems(2) by (meson list.set_intros(2))
  with b show ?case by (auto simp: seq_Inr)
qed

subsection \<open>The fitting cells\<close>

lemma cell5_eq: "cell5 = (26, np_zeros 26 26)"
  by (simp add: cell5_def)

lemma length_alpha: "length alpha = 9"
  by (simp add: alpha_def)


lemma assign_row_prefix_shape:
  assumes "has_shape M r c" and "assign_row_prefix M i k v = Inr M'"
  shows "has_shape M' r c"
proof -
  from assms(2) have i: "i < length M"
    by (auto simp: assign_row_prefix_def split: if_splits)
  from assms(2) obtain w where w: "broadcast_to (min k (length (M ! i))) v = Inr w"
    and M': "M' = M[i := w @ drop (length w) (M ! i)]"
    by (auto simp: assign_row_prefix_def split: if_splits sum.splits)
  from assms(1) i have "length (M ! i) = c" by (simp add: has_shape_def)
  moreover from w have "length w = min k (length (M ! i))" by (rule broadcast_to_length)
  ultimately have "length (w @ drop (length w) (M ! i)) = c" by simp
  with assms(1) show ?thesis unfolding M' by (rule has_shape_update)
qed

lemma assign_row_shape:
  assumes "has_shape M r c" and "assign_row M i v = Inr M'"
  shows "has_shape M' r c"
proof -
  from assms(2) have i: "i < length M"
    by (auto simp: assign_row_def split: if_splits)
  from assms(2) obtain w where w: "broadcast_to (length (M ! i)) v = Inr w"
    and M': "M' = M[i := w]"
    by (auto simp: assign_row_def split: if_splits sum.splits)
  from assms(1) i have "length (M ! i) = c" by (simp add: has_shape_def)
  with w have "length w = c" by (auto dest: broadcast_to_length)
  with assms(1) show ?thesis unfolding M' by (rule has_shape_update)
qed

lemma assign_row_prefix_fits:
  assumes "has_shape M r c" and "i < r" and "k \<le> c" and "length v = k"
  shows "assign_row_prefix M i k v = Inr (M[i := v @ drop k (M ! i)])"
  using assms by (simp add: assign_row_prefix_def has_shape_def broadcast_to_def min_def)

lemma assign_row_fits:
  assumes "has_shape M r c" and "i < r" and "length v = c"
  shows "assign_row M i v = Inr (M[i := v])"
  using assms by (simp add: assign_row_def has_shape_def broadcast_to_def)

lemma cell6_body_shape:
  assumes "has_shape H r c" and "cell6_body lib x y i H = (ev, Inr H')"
  shows "has_shape H' r c"
proof -
  from assms(2) obtain coef where "assign_row_prefix H (i - 1) i (np_round coef 3) = Inr H'"
    unfolding cell6_body_def by (auto simp: seq_eq_Inr lift_eq)
  with assms(1) show ?thesis by (rule assign_row_prefix_shape)
qed

lemma cell6_body_error:
  assumes lib: "coef_per_feature lib" and x: "x \<noteq> []"
    and H: "has_shape H r c" and i: "1 \<le> i" "i \<le> r" "i \<le> c"
    and run: "cell6_body lib x y i H = (ev, Inl e)"
  shows "\<exists>le. e = FitError le"
proof -
  from run consider "pipe_fit lib i LinearRegression x y = (ev, Inl e)"
    | ev1 coef where "pipe_fit lib i LinearRegression x y = (ev1, Inr coef)"
        "assign_row_prefix H (i - 1) i (np_round coef 3) = Inl e"
    unfolding cell6_body_def by (auto simp: seq_eq_Inl lift_eq)
  then show ?thesis
  proof cases
    case 1
    then show ?thesis by (rule pipe_fit_Inl)
  next
    case 2
    from pipe_fit_length [OF lib x 2(1)] have "length (np_round coef 3) = i"
      by (simp add: length_np_round)
    with H i have "assign_row_prefix H (i - 1) i (np_round coef 3)
        = Inr (H[i - 1 := np_round coef 3 @ drop i (H ! (i - 1))])"
      using assign_row_prefix_fits [of H r c "i - 1" i "np_round coef 3"] by simp
    with 2(2) show ?thesis by simp
  qed
qed

lemma cell6_outcome:
  assumes lib: "coef_per_feature lib" and x: "x \<noteq> []" and H: "has_shape H r c"
    and n: "n \<le> r" "n \<le> c"
  shows "case snd (cell6 lib x y n H) of Inl e \<Rightarrow> \<exists>le. e = FitError le | Inr H' \<Rightarrow> has_shape H' r c"
  unfolding cell6_def
proof (rule for_each_invariant [where P = "\<lambda>M. has_shape M r c"])
  show "has_shape H r c" by fact
next
  fix i M ev M'
  assume "has_shape M r c" "cell6_body lib x y i M = (ev, Inr M')"
  then show "has_shape M' r c" by (rule cell6_body_shape)
next
  fix i M ev e
  assume "i \<in> set [1..<n + 1]" "has_shape M r c" "cell6_body lib x y i M = (ev, Inl e)"
  with lib x n show "\<exists>le. e = FitError le"
    by (intro cell6_body_error [of lib x M r c i y ev e]) auto
qed

lemma cell33_body_Inr:
  "cell33_body lib x y n i (R, L) = (ev, Inr RL') \<longleftrightarrow>
     (\<exists>ev1 rc ev2 lc R' L'.
        pipe_fit lib n (Ridge (alpha ! i) True) x y = (ev1, Inr rc) \<and>
        pipe_fit lib n (Lasso (alpha ! i) True 1000000) x y = (ev2, Inr lc) \<and>
        assign_row R i rc = Inr R' \<and> assign_row L i lc = Inr L' \<and>
        RL' = (R', L') \<and> ev = ev1 @ ev2)"
  by (auto simp: cell33_body_def seq_eq_Inr lift_eq ret_eq)

lemma cell33_body_Inl:
  "cell33_body lib x y n i (R, L) = (ev, Inl e) \<longleftrightarrow>
     (pipe_fit lib n (Ridge (alpha ! i) True) x y = (ev, Inl e) \<or>
      (\<exists>ev1 rc ev2. pipe_fit lib n (Ridge (alpha ! i) True) x y = (ev1, Inr rc) \<and>
        ev = ev1 @ ev2 \<and>
        (pipe_fit lib n (Lasso (alpha ! i) True 1000000) x y = (ev2, Inl e) \<or>
         (\<exists>lc. pipe_fit lib n (Lasso (alpha ! i) True 1000000) x y = (ev2, Inr lc) \<and>
            (assign_row R i rc = Inl e \<or>
             (\<exists>R'. assign_row R i rc = Inr R' \<and> assign_row L i lc = Inl e))))))"
  by (auto simp: cell33_body_def seq_eq_Inl lift_eq ret_eq)

lemma cell33_body_shape:
  assumes "has_shape R r c \<and> has_shape L r c" and "cell33_body lib x y n i (R, L) = (ev, Inr RL')"
  shows "has_shape (fst RL') r c \<and> has_shape (snd RL') r c"
proof -
  from assms(2) obtain rc lc R' L' where
    "assign_row R i rc = Inr R'" "assign_row L i lc = Inr L'" "RL' = (R', L')"
    unfolding cell33_body_Inr by blast
  with assms(1) show ?thesis by (auto intro: assign_row_shape)
qed

lemma cell33_body_error:
  assumes lib: "coef_per_feature lib" and x: "x \<noteq> []"
    and RL: "has_shape R r n" "has_shape L r n" and i: "i < r"
    and run: "cell33_body lib x y n i (R, L) = (ev, Inl e)"
  shows "\<exists>le. e = FitError le"
proof -
  from run consider
      "pipe_fit lib n (Ridge (alpha ! i) True) x y = (ev, Inl e)"
    | ev2 where "pipe_fit lib n (Lasso (alpha ! i) True 1000000) x y = (ev2, Inl e)"
    | ev1 rc where "pipe_fit lib n (Ridge (alpha ! i) True) x y = (ev1, Inr rc)"
        "assign_row R i rc = Inl e"
    | ev2 lc where "pipe_fit lib n (Lasso (alpha ! i) True 1000000) x y = (ev2, Inr lc)"
        "assign_row L i lc = Inl e"
    unfolding cell33_body_Inl by blast
  then show ?thesis
  proof cases
    case 1 then show ?thesis by (rule pipe_fit_Inl)
  next
    case 2 then show ?thesis by (rule pipe_fit_Inl)
  next
    case 3
    from pipe_fit_length [OF lib x 3(1)] RL(1) i have "assign_row R i rc = Inr (R[i := rc])"
      using assign_row_fits [of R r n i rc] by simp
    with 3(2) show ?thesis by simp
  next
    case 4
    from pipe_fit_length [OF lib x 4(1)] RL(2) i have "assign_row L i lc = Inr (L[i := lc])"
      using assign_row_fits [of L r n i lc] by simp
    with 4(2) show ?thesis by simp
  qed
qed

lemma cell33_outcome:
  assumes lib: "coef_per_feature lib" and x: "x \<noteq> []"
  shows "case snd (cell33 lib junk junk' x y) of
           Inl e \<Rightarrow> \<exists>le. e = FitError le
         | Inr RL \<Rightarrow> has_shape (fst RL) 9 10 \<and> has_shape (snd RL) 9 10"
  unfolding cell33_def Let_def length_alpha
proof (rule for_each_invariant
    [where P = "\<lambda>RL. has_shape (fst RL) 9 10 \<and> has_shape (snd RL) 9 10"])
  show "has_shape (fst (np_empty junk 9 10, np_empty junk' 9 10)) 9 10 \<and>
        has_shape (snd (np_empty junk 9 10, np_empty junk' 9 10)) 9 10"
    by (simp add: has_shape_np_empty)
next
  fix i RL ev RL'
  assume "has_shape (fst RL) 9 10 \<and> has_shape (snd RL) 9 10"
    "cell33_body lib x y 10 i RL = (ev, Inr RL')"
  then show "has_shape (fst RL') 9 10 \<and> has_shape (snd RL') 9 10"
    by (cases RL) (auto dest: cell33_body_shape [rotated])
next
  fix i RL ev e
  assume "i \<in> set [0..<9]" "has_shape (fst RL) 9 10 \<and> has_shape (snd RL) 9 10"
    "cell33_body lib x y 10 i RL = (ev, Inl e)"
  with lib x show "\<exists>le. e = FitError le"
    by (cases RL) (auto intro: cell33_body_error [of lib x _ 9 10 _ i y ev e])
qed









subsection \<open>What the runs fit\<close>

lemma fitted_append: "fitted (evs @ evs') = fitted evs @ fitted evs'"
  by (simp add: fitted_def fits_append)

lemma fitted_Nil: "fitted [] = []"
  by (simp add: fitted_def)

lemma all_fits_ret: "all_fits Q (ret a)"
  by (simp add: all_fits_def ret_def)

lemma all_fits_lift: "all_fits Q (lift r)"
  by (simp add: all_fits_def lift_def)

lemma all_fits_pipe_fit: "Q (est, poly_features d x, y) \<Longrightarrow> all_fits Q (pipe_fit lib d est x y)"
  by (simp add: all_fits_def pipe_fit_def fits_map_Warn split: prod.splits)

lemma all_fits_seq:
  assumes "all_fits Q m" and "\<And>a. all_fits Q (f a)"
  shows "all_fits Q (seq m f)"
proof (cases m)
  case (Pair ev r)
  show ?thesis
  proof (cases r)
    case (Inl e)
    with Pair assms(1) show ?thesis by (simp add: seq_Inl all_fits_def)
  next
    case (Inr a)
    with Pair assms(1) assms(2) [of a] show ?thesis
      by (simp add: seq_Inr all_fits_def fits_append)
  qed
qed

lemma all_fits_for_each:
  assumes "\<And>i s. i \<in> set is \<Longrightarrow> all_fits Q (body i s)"
  shows "all_fits Q (for_each is body s)"
  using assms
proof (induction "is" arbitrary: s)
  case Nil
  show ?case by (simp add: all_fits_ret)
next
  case (Cons i "is")
  show ?case by (simp add: all_fits_seq Cons)
qed

lemma all_fits_cell6:
  assumes "\<And>i. i \<in> {1..n} \<Longrightarrow> Q (LinearRegression, poly_features i x, y)"
  shows "all_fits Q (cell6 lib x y n H)"
  unfolding cell6_def cell6_body_def
  by (intro all_fits_for_each all_fits_seq all_fits_pipe_fit all_fits_lift assms) auto

lemma all_fits_cell11:
  assumes "\<And>a. a \<in> set alphas \<Longrightarrow> Q (Ridge a True, poly_features 30 x, y)"
  shows "all_fits Q (cell11 lib x y)"
  unfolding cell11_def cell11_body_def
  by (intro all_fits_for_each all_fits_seq all_fits_pipe_fit all_fits_ret assms)

lemma all_fits_cell33:
  assumes "\<And>a. a \<in> set alpha \<Longrightarrow> Q (Ridge a True, poly_features 10 x, y)"
      and "\<And>a. a \<in> set alpha \<Longrightarrow> Q (Lasso a True 1000000, poly_features 10 x, y)"
  shows "all_fits Q (cell33 lib junk junk' x y)"
  unfolding cell33_def Let_def
proof (rule all_fits_for_each)
  fix i RL
  assume "i \<in> set [0..<length alpha]"
  then have "alpha ! i \<in> set alpha" by simp
  then show "all_fits Q (cell33_body lib x y 10 i RL)"
    unfolding cell33_body_def
    by (cases RL)
       (auto intro!: all_fits_seq all_fits_pipe_fit all_fits_lift all_fits_ret assms)
qed

lemma all_fits_notebook:
  assumes c3: "cell3 (randn_3 rnd) = (x, y)" and c30: "cell30 (randn_30 rnd) = (x', y')"
    and "\<And>i. i \<in> {1..26} \<Longrightarrow> Q (LinearRegression, poly_features i x, y)"
    and "\<And>a. a \<in> set alphas \<Longrightarrow> Q (Ridge a True, poly_features 30 x, y)"
    and "\<And>a. a \<in> set alpha \<Longrightarrow> Q (Ridge a True, poly_features 10 x', y')"
    and "\<And>a. a \<in> set alpha \<Longrightarrow> Q (Lasso a True 1000000, poly_features 10 x', y')"
  shows "all_fits Q (notebook lib rnd)"
  unfolding notebook_def c3 c30 cell5_eq
  by (auto split: prod.splits
      intro!: all_fits_seq all_fits_cell6 all_fits_cell11 all_fits_cell33 all_fits_ret assms)

lemma fitted_pipe_fit: "fitted (fst (pipe_fit lib d est x y)) = [est]"
  by (simp add: fitted_def pipe_fit_def fits_map_Warn split: prod.splits)

lemma for_each_fitted:
  assumes "\<And>i s ev s'. i \<in> set is \<Longrightarrow> body i s = (ev, Inr s') \<Longrightarrow> fitted ev = F i"
    and "for_each is body s = (ev, Inr s')"
  shows "fitted ev = concat (map F is)"
  using assms
proof (induction "is" arbitrary: s ev)
  case Nil
  then show ?case by (simp add: ret_def fitted_Nil)
next
  case (Cons i "is")
  from Cons.prems(2) obtain ev1 s1 ev2 where
    b: "body i s = (ev1, Inr s1)" and r: "for_each is body s1 = (ev2, Inr s')" and
    ev: "ev = ev1 @ ev2"
    by (auto simp: seq_eq_Inr)
  from Cons.prems(1) [of i s ev1 s1] b have "fitted ev1 = F i" by simp
  moreover have "fitted ev2 = concat (map F is)"
    using Cons.prems(1) r by (intro Cons.IH [of s1 ev2]) auto
  ultimately show ?case by (simp add: ev fitted_append)
qed

lemma cell11_fitted:
  assumes "cell11 lib x y = (ev, Inr r)"
  shows "fitted ev = map (\<lambda>a. Ridge a True) alphas"
proof -
  from assms obtain norms where run: "for_each alphas (cell11_body lib x y) [] = (ev, Inr norms)"
    unfolding cell11_def by (auto simp: seq_eq_Inr ret_eq)
  have "fitted ev = concat (map (\<lambda>a. [Ridge a True]) alphas)"
  proof (rule for_each_fitted [OF _ run])
    fix a s ev' s'
    assume "cell11_body lib x y a s = (ev', Inr s')"
    then obtain coefs where "pipe_fit lib 30 (Ridge a True) x y = (ev', Inr coefs)"
      unfolding cell11_body_def by (auto simp: seq_eq_Inr ret_eq)
    with fitted_pipe_fit [of lib 30 "Ridge a True" x y] show "fitted ev' = [Ridge a True]"
      by simp
  qed
  then show ?thesis by (simp add: concat_map_singleton)
qed

lemma cell33_fitted:
  assumes "cell33 lib junk junk' x y = (ev, Inr r)"
  shows "fitted ev = concat (map (\<lambda>a. [Ridge a True, Lasso a True 1000000]) alpha)"
proof -
  have "fitted ev = concat (map (\<lambda>i. [Ridge (alpha ! i) True, Lasso (alpha ! i) True 1000000])
      [0..<length alpha])"
  proof (rule for_each_fitted [OF _ assms [unfolded cell33_def Let_def]])
    fix i s ev' s'
    assume "cell33_body lib x y 10 i s = (ev', Inr s')"
    then obtain ev1 rc ev2 lc where
      "pipe_fit lib 10 (Ridge (alpha ! i) True) x y = (ev1, Inr rc)"
      "pipe_fit lib 10 (Lasso (alpha ! i) True 1000000) x y = (ev2, Inr lc)"
      "ev' = ev1 @ ev2"
      by (cases s) (auto simp: cell33_body_Inr)
    with fitted_pipe_fit [of lib 10 "Ridge (alpha ! i) True" x y]
      fitted_pipe_fit [of lib 10 "Lasso (alpha ! i) True 1000000" x y]
    show "fitted ev' = [Ridge (alpha ! i) True, Lasso (alpha ! i) True 1000000]"
      by (simp add: fitted_append)
  qed
  also have "\<dots> = concat (map (\<lambda>a. [Ridge a True, Lasso a True 1000000])
      (map (\<lambda>i. alpha ! i) [0..<length alpha]))"
    by (simp add: comp_def)
  finally show ?thesis by (simp add: map_nth)
qed

subsection \<open>The alpha grid in binary64\<close>

lemma fl_milli: "fl (1 / 1000) = 1152921504606847 / 1152921504606846976"
  by code_simp

lemma fl_micro: "fl (1 / 1000000) = 4722366482869645 / 4722366482869645213696"
  by code_simp

lemma fl_milli_exact:
  "fl (1152921504606847 / 1152921504606846976) = 1152921504606847 / 1152921504606846976"
  by code_simp

lemma fl_micro_exact:
  "fl (4722366482869645 / 4722366482869645213696) = 4722366482869645 / 4722366482869645213696"
  by code_simp

lemma fl_quotient:
  "fl ((1152921504606847 / 1152921504606846976) / (4722366482869645 / 4722366482869645213696))
     = 8796093022208001 / 8796093022208"
  by code_simp

lemma fl_thousand_steps:
  "fl (1000 * (4722366482869645 / 4722366482869645213696))
     = 1152921504606847 / 1152921504606846976"
  by code_simp

lemma ceiling_quotient: "\<lceil>8796093022208001 / 8796093022208 :: real\<rceil> = 1001"
  by code_simp

lemma arange_length_alphas: "arange_length 0 (fl (1 / 1000)) (fl (1 / 1000000)) = 1001"
  by (simp only: arange_length_def fl_milli fl_micro diff_zero fl_milli_exact fl_quotient
      ceiling_quotient)

lemma length_alphas: "length alphas = 1001"
  by (simp add: alphas_def np_arange_def arange_length_alphas)

lemma alphas_nth:
  "i < 1001 \<Longrightarrow> alphas ! i = arange_entry 0 (fl (1 / 1000000)) i"
  by (simp add: alphas_def np_arange_def arange_length_alphas)

lemma arange_entry_from_third:
  "2 \<le> i \<Longrightarrow>
     arange_entry start step i = fl (start + fl (of_nat i * fl (fl (start + step) - start)))"
  by (simp add: arange_entry_def Let_def)

lemma alphas_last: "last alphas = fl (1 / 1000)"
proof -
  have "alphas \<noteq> []" using length_alphas by auto
  then have "last alphas = alphas ! 1000" by (simp add: last_conv_nth length_alphas)
  also have "\<dots> = arange_entry 0 (fl (1 / 1000000)) 1000" by (simp add: alphas_nth)
  also have "\<dots> = fl (0 + fl (of_nat 1000 * fl (fl (0 + fl (1 / 1000000)) - 0)))"
    by (rule arange_entry_from_third) simp
  also have "\<dots> = fl (1 / 1000)"
    by (simp only: add_0 diff_zero of_nat_numeral fl_micro fl_micro_exact fl_thousand_steps
        fl_milli_exact fl_milli)
  finally show ?thesis .
qed

lemma alphas_first: "alphas ! 0 = 0"
  by (simp add: alphas_nth arange_entry_def)

lemma alphas_second: "alphas ! 1 = fl (1 / 1000000)"
  by (simp only: alphas_nth arange_entry_def Let_def add_0 fl_micro fl_micro_exact) simp

subsection \<open>Rounding to decimals in binary64\<close>


lemma fl_thousand: "fl (10 ^ 3) = 10 ^ 3"
  by code_simp

lemma np_round_3_nth:
  "j < length v \<Longrightarrow> np_round v 3 ! j = fl (of_int (rint (fl (v ! j * 10 ^ 3))) / 10 ^ 3)"
  by (simp only: nth_np_round fl_thousand)

lemma fl_quarter_percent: "fl (25 / 10000) = 5764607523034235 / 2305843009213693952"
  by code_simp

lemma fl_quarter_percent_scaled: "fl (5764607523034235 / 2305843009213693952 * 10 ^ 3) = 5 / 2"
  by code_simp

lemma rint_tie: "rint (5 / 2) = 2"
  by code_simp

lemma np_round_near_tie: "np_round [fl (25 / 10000)] 3 = [fl (2 / 1000)]"
proof -
  have "np_round [fl (25 / 10000)] 3 ! 0 = fl (of_int (rint (fl (fl (25 / 10000) * 10 ^ 3))) / 10 ^ 3)"
    using np_round_3_nth [of 0 "[fl (25 / 10000)]"] by simp
  also have "\<dots> = fl (of_int 2 / 10 ^ 3)"
    by (simp only: fl_quarter_percent fl_quarter_percent_scaled rint_tie)
  finally have "np_round [fl (25 / 10000)] 3 ! 0 = fl (2 / 1000)" by simp
  moreover have "length (np_round [fl (25 / 10000)] 3) = 1" by (simp add: length_np_round)
  ultimately show ?thesis by (cases "np_round [fl (25 / 10000)] 3") auto
qed

lemma fl_large_scaled: "fl (562949953421315 / 10 * 10 ^ 3) = 56294995342131504"
  by code_simp

lemma rint_large: "rint 56294995342131504 = 56294995342131504"
  by code_simp

lemma fl_large_quotient: "fl (of_int 56294995342131504 / 10 ^ 3) = 7205759403792833 / 128"
  by code_simp

lemma np_round_large: "np_round [562949953421315 / 10] 3 = [7205759403792833 / 128]"
proof -
  have "np_round [562949953421315 / 10] 3 ! 0
      = fl (of_int (rint (fl (562949953421315 / 10 * 10 ^ 3))) / 10 ^ 3)"
    using np_round_3_nth [of 0 "[562949953421315 / 10]"] by simp
  also have "\<dots> = 7205759403792833 / 128"
    by (simp only: fl_large_scaled rint_large fl_large_quotient)
  finally have "np_round [562949953421315 / 10] 3 ! 0 = 7205759403792833 / 128" .
  moreover have "length (np_round [562949953421315 / 10 :: real] 3) = 1"
    by (simp add: length_np_round)
  ultimately show ?thesis by (cases "np_round [562949953421315 / 10 :: real] 3") auto
qed


subsection \<open>The example libraries\<close>


subsection \<open>First fits and complete sweeps\<close>

lemma alphas_from_third:
  assumes "2 \<le> i" and "i < 1001"
  shows "alphas ! i = fl (fl (of_nat i * fl (1 / 1000000)))"
proof -
  from assms(2) have "alphas ! i = arange_entry 0 (fl (1 / 1000000)) i" by (rule alphas_nth)
  also from assms(1) have "\<dots> = fl (0 + fl (of_nat i * fl (fl (0 + fl (1 / 1000000)) - 0)))"
    by (rule arange_entry_from_third)
  also have "fl (fl (0 + fl (1 / 1000000)) - 0) = fl (1 / 1000000)"
    by (simp only: add_0 diff_zero fl_micro fl_micro_exact)
  finally show ?thesis by (simp only: add_0)
qed

lemma fits_seq_prefix: "set (fits (fst m)) \<subseteq> set (fits (fst (seq m f)))"
  by (cases m) (auto simp: seq_def fits_append split: sum.splits prod.splits)

lemma fits_pipe_fit: "fits (fst (pipe_fit lib d est x y)) = [(est, poly_features d x, y)]"
  by (simp add: pipe_fit_def fits_map_Warn split: prod.splits)

lemma cell6_first_fit:
  "0 < n \<Longrightarrow> (LinearRegression, poly_features 1 x, y) \<in> set (fits (fst (cell6 lib x y n H)))"
proof -
  assume "0 < n"
  then have "[1..<n + 1] = 1 # [Suc 1..<n + 1]" by (subst upt_rec) simp
  then have "cell6 lib x y n H
      = seq (cell6_body lib x y 1 H) (for_each [Suc 1..<n + 1] (cell6_body lib x y))"
    by (simp add: cell6_def)
  moreover have "(LinearRegression, poly_features 1 x, y)
      \<in> set (fits (fst (cell6_body lib x y 1 H)))"
    unfolding cell6_body_def
    using fits_seq_prefix [of "pipe_fit lib 1 LinearRegression x y"]
    by (auto simp: fits_pipe_fit)
  ultimately show ?thesis using fits_seq_prefix by fastforce
qed

lemma notebook_first_fit:
  "(LinearRegression, poly_features 1 (fst (cell3 (randn_3 rnd))), snd (cell3 (randn_3 rnd)))
     \<in> set (fits (fst (notebook lib rnd)))"
proof -
  obtain x y where c3: "cell3 (randn_3 rnd) = (x, y)" by (cases "cell3 (randn_3 rnd)")
  have "(LinearRegression, poly_features 1 x, y)
      \<in> set (fits (fst (cell6 lib x y 26 (np_zeros 26 26))))"
    by (rule cell6_first_fit) simp
  then show ?thesis
    unfolding notebook_def c3 cell5_eq using fits_seq_prefix by (fastforce split: prod.splits)
qed

lemma cell11_total:
  assumes "\<And>a X y. \<exists>ws coef. lib (Ridge a True) X y = (ws, Inr coef)"
  shows "\<exists>ev r. cell11 lib x y = (ev, Inr r)"
proof -
  have "\<exists>ev s'. for_each alphas (cell11_body lib x y) [] = (ev, Inr s') \<and> True"
  proof (rule for_each_total [where P = "\<lambda>s. True"])
    fix a s
    from assms obtain ws coef where "lib (Ridge a True) (poly_features 30 x) y = (ws, Inr coef)"
      by blast
    then show "\<exists>ev s'. cell11_body lib x y a s = (ev, Inr s') \<and> True"
      by (simp add: cell11_body_def pipe_fit_def seq_def ret_def)
  qed simp
  then show ?thesis by (auto simp: cell11_def seq_Inr ret_def)
qed

subsection \<open>The synthetic data\<close>

lemma length_np_linspace: "length (np_linspace start stop num) = num"
  by (simp add: np_linspace_def)

lemma nth_np_linspace:
  "k < num \<Longrightarrow>
     np_linspace start stop num ! k = start + of_nat k * ((stop - start) / of_nat (num - 1))"
  by (simp add: np_linspace_def)

lemma length_randn: "length (randn z k) = k"
  by (simp add: randn_def)

lemma nth_randn: "j < k \<Longrightarrow> randn z k ! j = z j"
  by (simp add: randn_def)

lemma cell3_data:
  assumes "cell3 z = (x, y)"
  shows "x = np_linspace (- 3) 3 100 \<and> length y = 100 \<and>
         (\<forall>k<100. y ! k = x ! k * (x ! k - 1) + 1.2 * z k)"
  using assms
  by (auto simp: cell3_def Let_def length_np_linspace length_randn nth_randn)

lemma cell30_data:
  assumes "cell30 z = (x, y)"
  shows "x = np_linspace (- 3) 3 100 \<and> length y = 100 \<and>
         (\<forall>k<100. y ! k = x ! k * (x ! k - 1) + 1.2 * z k)"
  using assms
  by (auto simp: cell30_def Let_def length_np_linspace length_randn nth_randn)

lemma randint_range:
  assumes "low < high" and "j < k"
  shows "low \<le> randint u low high k ! j \<and> randint u low high k ! j < high"
proof -
  from assms(1) have "0 < high - low" by simp
  then have "0 \<le> int (u j) mod (high - low)" "int (u j) mod (high - low) < high - low"
    by (rule pos_mod_sign, rule pos_mod_bound)
  with assms(2) show ?thesis by (simp add: randint_def)
qed

lemma cell14_data:
  assumes "cell14 u z z' = (age, distance, tiredness)"
  shows "length age = 100 \<and> length distance = 100 \<and> length tiredness = 100 \<and>
         (\<forall>k<100. 20 \<le> age ! k \<and> age ! k < 40 \<and> distance ! k = 3 * z k + 10 \<and>
            tiredness ! k = of_int (age ! k) + 3 * distance ! k + 2 * z' k)"
proof -
  from assms have age: "age = randint u 20 40 100"
    and distance: "distance = map (\<lambda>r. 3 * r + 10) (randn z 100)"
    and tiredness: "tiredness = map2 (+) (map2 (+) (map of_int age) (map (\<lambda>d. 3 * d) distance))
                                (map (\<lambda>r. 2 * r) (randn z' 100))"
    by (auto simp: cell14_def Let_def)
  have la: "length age = 100" by (simp add: age randint_def)
  have ld: "length distance = 100" by (simp add: distance length_randn)
  have lt: "length tiredness = 100" by (simp add: tiredness la ld length_randn)
  have "\<forall>k<100. 20 \<le> age ! k \<and> age ! k < 40 \<and> distance ! k = 3 * z k + 10 \<and>
            tiredness ! k = of_int (age ! k) + 3 * distance ! k + 2 * z' k"
  proof (intro allI impI)
    fix k :: nat assume k: "k < 100"
    have "20 \<le> age ! k \<and> age ! k < 40"
      unfolding age using k by (intro randint_range) simp_all
    moreover from k have "distance ! k = 3 * z k + 10"
      by (simp add: distance length_randn nth_randn)
    moreover from k have "tiredness ! k = of_int (age ! k) + 3 * distance ! k + 2 * z' k"
      by (simp add: tiredness la ld length_randn nth_randn)
    ultimately show "20 \<le> age ! k \<and> age ! k < 40 \<and> distance ! k = 3 * z k + 10 \<and>
            tiredness ! k = of_int (age ! k) + 3 * distance ! k + 2 * z' k" by blast
  qed
  with la ld lt show ?thesis by blast
qed

subsection \<open>The squared norm\<close>

lemma sum_list_squares_nonneg: "0 \<le> sum_list (map (\<lambda>c::real. c ^ 2) v)"
  by (induction v) simp_all

subsection \<open>The claims\<close>

text \<open>
  C9. The value appended to \<^verbatim>\<open>norms\<close> is the sum of the squares of the coefficient
  entries, for every coefficient vector: squaring the square root of the non-negative sum
  of squares gives the sum back, so the plotted quantity is the squared 2-norm of beta.
\<close>

theorem norm_entry_is_sum_of_squares:
  "norm_entry coefs = (\<Sum>c\<leftarrow>coefs. c ^ 2)"
  unfolding norm_entry_def np_sqrt_def np_sum_def np_power_def
  using sum_list_squares_nonneg [of coefs] by simp

text \<open>
  C5. The notebook adds no error handling of its own, so what a library call raises or warns
  about comes out of the cell unchanged. For each of the three fitting cells and for the
  whole run: the warnings shown are exactly the warnings of the fits made, in their order,
  and the run ends with a fit's exception exactly when a fit it made raised that exception.
\<close>

theorem library_failures_propagate:
  "propagates lib (cell6 lib x y n coef_holder) \<and>
   propagates lib (cell11 lib x y) \<and>
   propagates lib (cell33 lib junk junk' x y) \<and>
   propagates lib (notebook lib rnd)"
  by (simp add: propagates_cell6 propagates_cell11 propagates_cell33 propagates_notebook)

theorem library_failures_propagate_witness:
  "propagates lasso_fails (cell33 lasso_fails (\<lambda>i j. 0) (\<lambda>i j. 0) [2] [0]) \<and>
   snd (cell33 lasso_fails (\<lambda>i j. 0) (\<lambda>i j. 0) [2] [0]) = Inl (FitError ''FloatingPointError'') \<and>
   warns (fst (cell33 lasso_fails (\<lambda>i j. 0) (\<lambda>i j. 0) [2] [0])) = [''ConvergenceWarning'']"
proof -
  have "cell33_body lasso_fails [2] [0] 10 0 (np_empty (\<lambda>i j. 0) 9 10, np_empty (\<lambda>i j. 0) 9 10)
      = ([Fit (Ridge (alpha ! 0) True) (poly_features 10 [2]) [0],
          Fit (Lasso (alpha ! 0) True 1000000) (poly_features 10 [2]) [0],
          Warn ''ConvergenceWarning''], Inl (FitError ''FloatingPointError''))"
    by (simp add: cell33_body_def pipe_fit_def lasso_fails_def seq_def)
  moreover have "[0..<length alpha] = 0 # [1..<9]"
    by (simp add: length_alpha upt_conv_Cons)
  ultimately have "cell33 lasso_fails (\<lambda>i j. 0) (\<lambda>i j. 0) [2] [0]
      = ([Fit (Ridge (alpha ! 0) True) (poly_features 10 [2]) [0],
          Fit (Lasso (alpha ! 0) True 1000000) (poly_features 10 [2]) [0],
          Warn ''ConvergenceWarning''], Inl (FitError ''FloatingPointError''))"
    by (simp add: cell33_def Let_def length_alpha seq_Inl)
  with library_failures_propagate
    [where lib = lasso_fails and x = "[2]" and y = "[0]" and junk = "\<lambda>i j. 0" and junk' = "\<lambda>i j. 0"]
  show ?thesis by simp
qed

text \<open>
  C3 as stated gives the arithmetic sweep 1000 values. The length of
  \<^verbatim>\<open>np.arange(0,.001,.000001)\<close> is the ceiling of the binary64 quotient
  \<open>.001 / .000001 = 1000.0000000000001\<close>, which is 1001.
\<close>

theorem arange_sweep_not_1000_values:
  "length (np_arange 0 (fl (1 / 1000)) (fl (1 / 1000000))) \<noteq> 1000"
  using length_alphas by (simp add: alphas_def)

text \<open>
  C3, amended. The penalty \<open>alpha\<close> is swept over \<^verbatim>\<open>np.arange(0,.001,.000001)\<close>, which has 1001
  values (0, the step, then \<open>i\<close> times the step rounded, up to and including the stop value
  \<open>.001\<close>), and over the explicit list of 9 values. A sweep that completes fits one ridge
  model for each value of the first and one ridge and one lasso model for each value of the
  second, in order, and no estimator of the run has a penalty outside these two grids.
\<close>

theorem alpha_sweeps:
  "length alphas = 1001 \<and> alphas ! 0 = 0 \<and> alphas ! 1 = fl (1 / 1000000) \<and>
   (\<forall>i. 2 \<le> i \<and> i < 1001 \<longrightarrow> alphas ! i = fl (fl (of_nat i * fl (1 / 1000000)))) \<and>
   last alphas = fl (1 / 1000) \<and>
   length alpha = 9 \<and>
   (\<forall>ev r. cell11 lib x y = (ev, Inr r) \<longrightarrow> fitted ev = map (\<lambda>a. Ridge a True) alphas) \<and>
   (\<forall>ev r. cell33 lib junk junk' x y = (ev, Inr r) \<longrightarrow>
      fitted ev = concat (map (\<lambda>a. [Ridge a True, Lasso a True 1000000]) alpha)) \<and>
   (\<forall>est \<in> set (fitted (fst (notebook lib rnd))).
      est = LinearRegression \<or> (\<exists>a \<in> set alphas. est = Ridge a True) \<or>
      (\<exists>a \<in> set alpha. est = Ridge a True \<or> est = Lasso a True 1000000))"
proof -
  let ?Q = "\<lambda>t :: estimator \<times> matrix \<times> vec.
      fst t = LinearRegression \<or> (\<exists>a \<in> set alphas. fst t = Ridge a True) \<or>
      (\<exists>a \<in> set alpha. fst t = Ridge a True \<or> fst t = Lasso a True 1000000)"
  obtain x3 y3 where c3: "cell3 (randn_3 rnd) = (x3, y3)" by (cases "cell3 (randn_3 rnd)")
  obtain x30 y30 where c30: "cell30 (randn_30 rnd) = (x30, y30)" by (cases "cell30 (randn_30 rnd)")
  have "all_fits ?Q (notebook lib rnd)"
    by (rule all_fits_notebook [OF c3 c30]) auto
  then have used: "\<forall>est \<in> set (fitted (fst (notebook lib rnd))).
      est = LinearRegression \<or> (\<exists>a \<in> set alphas. est = Ridge a True) \<or>
      (\<exists>a \<in> set alpha. est = Ridge a True \<or> est = Lasso a True 1000000)"
    by (auto simp: all_fits_def list_all_iff fitted_def)
  have grid: "\<forall>i. 2 \<le> i \<and> i < 1001 \<longrightarrow> alphas ! i = fl (fl (of_nat i * fl (1 / 1000000)))"
    by (simp add: alphas_from_third)
  have c11: "\<forall>ev r. cell11 lib x y = (ev, Inr r) \<longrightarrow> fitted ev = map (\<lambda>a. Ridge a True) alphas"
    by (intro allI impI) (rule cell11_fitted)
  have c33: "\<forall>ev r. cell33 lib junk junk' x y = (ev, Inr r) \<longrightarrow>
      fitted ev = concat (map (\<lambda>a. [Ridge a True, Lasso a True 1000000]) alpha)"
    by (intro allI impI) (rule cell33_fitted)
  from length_alphas alphas_first alphas_second grid alphas_last length_alpha c11 c33 used
  show ?thesis by (intro conjI)
qed

theorem alpha_sweeps_witness:
  "(\<exists>ev r. cell11 third_lib [2] [0] = (ev, Inr r) \<and> length (fitted ev) = 1001) \<and>
   LinearRegression \<in> set (fitted (fst (notebook third_lib still_draws))) \<and>
   alphas ! 1000 = fl (fl (1000 * fl (1 / 1000000)))"
proof -
  note facts = alpha_sweeps [of third_lib "[2]" "[0]" "\<lambda>i j. 0" "\<lambda>i j. 0" still_draws]
  have "\<exists>ev r. cell11 third_lib [2] [0] = (ev, Inr r)"
    by (rule cell11_total) (simp add: third_lib_def)
  then obtain ev r where run: "cell11 third_lib [2] [0] = (ev, Inr r)" by blast
  note c11 = facts [THEN conjunct2, THEN conjunct2, THEN conjunct2, THEN conjunct2,
    THEN conjunct2, THEN conjunct2, THEN conjunct1, THEN spec, THEN spec, THEN mp, OF run]
  then have "length (fitted ev) = 1001"
    using facts [THEN conjunct1] by simp
  with run have first: "\<exists>ev r. cell11 third_lib [2] [0] = (ev, Inr r) \<and> length (fitted ev) = 1001"
    by blast
  have "(LinearRegression, poly_features 1 (fst (cell3 (randn_3 still_draws))),
      snd (cell3 (randn_3 still_draws))) \<in> set (fits (fst (notebook third_lib still_draws)))"
    by (rule notebook_first_fit)
  then have second: "LinearRegression \<in> set (fitted (fst (notebook third_lib still_draws)))"
    unfolding fitted_def by force
  have range: "2 \<le> (1000 :: nat) \<and> (1000 :: nat) < 1001" by simp
  from facts [THEN conjunct2, THEN conjunct2, THEN conjunct2, THEN conjunct1, THEN spec,
    THEN mp, OF range]
  have third: "alphas ! 1000 = fl (fl (1000 * fl (1 / 1000000)))" by simp
  from first second third show ?thesis by (intro conjI)
qed

text \<open>
  C8. Every dataset the notebook fits is synthesized in the notebook from random draws: each
  fit of a run gets the powers of \<^verbatim>\<open>x = np.linspace(-3,3,100)\<close> as design matrix and a response
  \<^verbatim>\<open>y = x*(x-1) + 1.2*np.random.randn(100)\<close>, with the draws of cell 3 or of cell 30; the
  walking data are \<^verbatim>\<open>tiredness = age + 3*distance + 2*randn(100)\<close> with
  \<^verbatim>\<open>age = randint(20,40,100)\<close> and \<^verbatim>\<open>distance = 3*randn(100)+10\<close>. The data depend on
  nothing but the draws.
\<close>

theorem fitted_data_are_synthesized:
  "(\<forall>(est, X, y) \<in> set (fits (fst (notebook lib rnd))).
      (\<exists>d. X = poly_features d (np_linspace (- 3) 3 100)) \<and> length y = 100 \<and>
      (\<exists>z \<in> {randn_3 rnd, randn_30 rnd}. \<forall>k<100.
          y ! k = np_linspace (- 3) 3 100 ! k * (np_linspace (- 3) 3 100 ! k - 1) + 1.2 * z k)) \<and>
   length (np_linspace (- 3) 3 100) = 100 \<and>
   (\<forall>k<100. np_linspace (- 3) 3 100 ! k = - 3 + of_nat k * (6 / 99)) \<and>
   (case cell14 (randint_14 rnd) (randn_14_distance rnd) (randn_14_tiredness rnd) of
      (age, distance, tiredness) \<Rightarrow>
        length age = 100 \<and> length distance = 100 \<and> length tiredness = 100 \<and>
        (\<forall>k<100. 20 \<le> age ! k \<and> age ! k < 40 \<and>
           distance ! k = 3 * randn_14_distance rnd k + 10 \<and>
           tiredness ! k = of_int (age ! k) + 3 * distance ! k + 2 * randn_14_tiredness rnd k))"
proof -
  let ?x = "np_linspace (- 3) 3 100"
  let ?Q = "\<lambda>t :: estimator \<times> matrix \<times> vec.
      (\<exists>d. fst (snd t) = poly_features d ?x) \<and> length (snd (snd t)) = 100 \<and>
      (\<exists>z \<in> {randn_3 rnd, randn_30 rnd}. \<forall>k<100.
          snd (snd t) ! k = ?x ! k * (?x ! k - 1) + 1.2 * z k)"
  obtain x3 y3 where c3: "cell3 (randn_3 rnd) = (x3, y3)" by (cases "cell3 (randn_3 rnd)")
  obtain x30 y30 where c30: "cell30 (randn_30 rnd) = (x30, y30)"
    by (cases "cell30 (randn_30 rnd)")
  from cell3_data [OF c3] have x3: "x3 = ?x" and y3: "length y3 = 100"
    "\<forall>k<100. y3 ! k = ?x ! k * (?x ! k - 1) + 1.2 * randn_3 rnd k" by simp_all
  from cell30_data [OF c30] have x30: "x30 = ?x" and y30: "length y30 = 100"
    "\<forall>k<100. y30 ! k = ?x ! k * (?x ! k - 1) + 1.2 * randn_30 rnd k" by simp_all
  have Q3: "?Q (est, poly_features d x3, y3)" for est d
    using y3 unfolding x3 by auto
  have Q30: "?Q (est, poly_features d x30, y30)" for est d
    using y30 unfolding x30 by auto
  have "all_fits ?Q (notebook lib rnd)"
    by (rule all_fits_notebook [OF c3 c30]) (rule Q3 Q30)+
  then have fitsQ: "\<forall>(est, X, y) \<in> set (fits (fst (notebook lib rnd))).
      (\<exists>d. X = poly_features d ?x) \<and> length y = 100 \<and>
      (\<exists>z \<in> {randn_3 rnd, randn_30 rnd}. \<forall>k<100.
          y ! k = ?x ! k * (?x ! k - 1) + 1.2 * z k)"
    unfolding all_fits_def list_all_iff by fastforce
  have grid: "\<forall>k<100. ?x ! k = - 3 + of_nat k * (6 / 99)"
    by (simp add: nth_np_linspace)
  obtain age distance tiredness where
    c14: "cell14 (randint_14 rnd) (randn_14_distance rnd) (randn_14_tiredness rnd)
      = (age, distance, tiredness)"
    by (cases "cell14 (randint_14 rnd) (randn_14_distance rnd) (randn_14_tiredness rnd)")
  from cell14_data [OF c14] have walk:
    "case cell14 (randint_14 rnd) (randn_14_distance rnd) (randn_14_tiredness rnd) of
      (age, distance, tiredness) \<Rightarrow>
        length age = 100 \<and> length distance = 100 \<and> length tiredness = 100 \<and>
        (\<forall>k<100. 20 \<le> age ! k \<and> age ! k < 40 \<and>
           distance ! k = 3 * randn_14_distance rnd k + 10 \<and>
           tiredness ! k = of_int (age ! k) + 3 * distance ! k + 2 * randn_14_tiredness rnd k)"
    unfolding c14 by simp
  from fitsQ length_np_linspace [of "- 3" 3 100] grid walk show ?thesis by (intro conjI)
qed

theorem fitted_data_are_synthesized_witness:
  "length (snd (cell3 (randn_3 still_draws))) = 100 \<and>
   np_linspace (- 3) 3 100 ! 99 = 3 \<and>
   50 \<le> snd (snd (cell14 (randint_14 still_draws) (randn_14_distance still_draws)
       (randn_14_tiredness still_draws))) ! 5 \<and>
   snd (snd (cell14 (randint_14 still_draws) (randn_14_distance still_draws)
       (randn_14_tiredness still_draws))) ! 5 < 70"
proof -
  note facts = fitted_data_are_synthesized [of third_lib still_draws]
  have "(LinearRegression, poly_features 1 (fst (cell3 (randn_3 still_draws))),
      snd (cell3 (randn_3 still_draws))) \<in> set (fits (fst (notebook third_lib still_draws)))"
    by (rule notebook_first_fit)
  from facts [THEN conjunct1, THEN bspec, OF this]
  have first: "length (snd (cell3 (randn_3 still_draws))) = 100" by simp
  have k: "(99 :: nat) < 100" by simp
  from facts [THEN conjunct2, THEN conjunct2, THEN conjunct1, THEN spec, THEN mp, OF k]
  have second: "np_linspace (- 3) 3 100 ! 99 = 3" by simp
  obtain age distance tiredness where
    c14: "cell14 (randint_14 still_draws) (randn_14_distance still_draws)
      (randn_14_tiredness still_draws) = (age, distance, tiredness)"
    by (cases "cell14 (randint_14 still_draws) (randn_14_distance still_draws)
      (randn_14_tiredness still_draws)")
  from facts [THEN conjunct2, THEN conjunct2, THEN conjunct2]
  have "\<forall>k<100. 20 \<le> age ! k \<and> age ! k < 40 \<and>
           distance ! k = 3 * randn_14_distance still_draws k + 10 \<and>
           tiredness ! k = of_int (age ! k) + 3 * distance ! k + 2 * randn_14_tiredness still_draws k"
    unfolding c14 by simp
  from this [THEN spec, of 5]
  have "20 \<le> age ! 5" "age ! 5 < 40" "distance ! 5 = 10" "tiredness ! 5 = of_int (age ! 5) + 3 * distance ! 5"
    by (simp_all add: still_draws_def)
  then have "50 \<le> tiredness ! 5 \<and> tiredness ! 5 < 70" by simp
  with first second show ?thesis unfolding c14 by simp
qed



end
